theory Spec2Isabelle
  imports Complex_Main "HOL-Library.Multiset" "HOL-Library.Char_ord" "HOL-Library.List_Lexorder"
begin

section \<open>Strings\<close>

text \<open>
  The pipeline of \<^verbatim>\<open>rag_bedrock_real.py\<close> works on Python \<^verbatim>\<open>str\<close> values. A text is
  modelled as a \<^typ>\<open>string\<close>, one \<^typ>\<open>char\<close> per code point (the code points below 256),
  so that \<^const>\<open>length\<close> is Python's \<^verbatim>\<open>len\<close>.

  \<^verbatim>\<open>str.split()\<close> without arguments and \<^verbatim>\<open>str.strip()\<close> use the same test for
  whitespace, \<^verbatim>\<open>str.isspace\<close> on one character. Below 256 the whitespace code points are
  9 to 13, 28 to 32, 133 and 160.
\<close>

definition isspace :: "char \<Rightarrow> bool" where
  "isspace c \<longleftrightarrow>
     c \<in> set [CHR 0x09, CHR 0x0A, CHR 0x0B, CHR 0x0C, CHR 0x0D,
               CHR 0x1C, CHR 0x1D, CHR 0x1E, CHR 0x1F, CHR 0x20,
               CHR 0x85, CHR 0xA0]"

text \<open>
  \<^verbatim>\<open>s.split()\<close>: the maximal runs of characters that are not whitespace, in order.
  \<open>words_from cur s\<close> scans \<open>s\<close> with the run read so far in \<open>cur\<close>; a whitespace
  character closes a run that is not empty, and the end of the text does too.
\<close>

fun words_from :: "string \<Rightarrow> string \<Rightarrow> string list" where
  "words_from cur [] = (if cur = [] then [] else [cur])"
| "words_from cur (c # cs) =
     (if isspace c
      then (if cur = [] then words_from [] cs else cur # words_from [] cs)
      else words_from (cur @ [c]) cs)"

definition str_split :: "string \<Rightarrow> string list" where
  "str_split s = words_from [] s"

text \<open>\<^verbatim>\<open>s.strip()\<close>: \<open>s\<close> without its leading and its trailing whitespace.\<close>

definition str_strip :: "string \<Rightarrow> string" where
  "str_strip s = rev (dropWhile isspace (rev (dropWhile isspace s)))"

text \<open>\<^verbatim>\<open>sep.join(xs)\<close>.\<close>

fun str_join :: "string \<Rightarrow> string list \<Rightarrow> string" where
  "str_join sep [] = []"
| "str_join sep [x] = x"
| "str_join sep (x # y # zs) = x @ sep @ str_join sep (y # zs)"

section \<open>Chunker: \<^verbatim>\<open>split_into_chunks\<close>\<close>

text \<open>
  \<^verbatim>\<open>
  words = text.split()
  chunks = []
  current_chunk = ""
  for word in words:
      if len(current_chunk) + len(word) + 1 <= chunk_size:
          current_chunk += word + " "
      else:
          chunks.append(current_chunk.strip())
          current_chunk = word + " "
  if current_chunk:
      chunks.append(current_chunk.strip())
  return chunks
  \<close>
  The loop is a recursion over the words, on the pair of the two variables it updates.
  \<open>chunk_size\<close> is a Python integer, and nothing in the function checks its sign. The
  function has no \<^verbatim>\<open>raise\<close> and calls nothing that raises on a string and an
  integer, so its result is a plain list (the \<^verbatim>\<open>print\<close> at its start is left out).
\<close>

fun chunk_loop :: "int \<Rightarrow> string list \<Rightarrow> string list \<times> string \<Rightarrow> string list \<times> string" where
  "chunk_loop chunk_size [] (chunks, current_chunk) = (chunks, current_chunk)"
| "chunk_loop chunk_size (word # words) (chunks, current_chunk) =
     (if int (length current_chunk) + int (length word) + 1 \<le> chunk_size
      then chunk_loop chunk_size words (chunks, current_chunk @ word @ '' '')
      else chunk_loop chunk_size words (chunks @ [str_strip current_chunk], word @ '' ''))"

definition split_into_chunks :: "string \<Rightarrow> int \<Rightarrow> string list" where
  "split_into_chunks text chunk_size =
     (case chunk_loop chunk_size (str_split text) ([], []) of
        (chunks, current_chunk) \<Rightarrow>
          if current_chunk \<noteq> [] then chunks @ [str_strip current_chunk] else chunks)"

text \<open>
  A word, as \<^verbatim>\<open>split()\<close> returns them: not empty and free of whitespace.
\<close>

definition is_word :: "string \<Rightarrow> bool" where
  "is_word w \<longleftrightarrow> w \<noteq> [] \<and> (\<forall>c\<in>set w. \<not> isspace c)"

section \<open>Retriever: the library operations it calls\<close>

text \<open>
  \<^verbatim>\<open>create_vector_store\<close> and \<^verbatim>\<open>retrieve_relevant_chunks\<close> call scikit-learn's
  \<^verbatim>\<open>TfidfVectorizer()\<close> (every option at its default) and \<^verbatim>\<open>cosine_similarity\<close>, and
  NumPy's \<^verbatim>\<open>argsort\<close>. These are not code of the repository; they are modelled here
  from their documented behaviour, over the real numbers in place of 64-bit floats.
\<close>

subsection \<open>The analyzer of \<^verbatim>\<open>TfidfVectorizer\<close>\<close>

text \<open>
  The default analyzer lowercases the document (\<^verbatim>\<open>str.lower\<close>) and returns the matches of
  the pattern \<^verbatim>\<open>(?u)\b\w\w+\b\<close>: the maximal runs of word characters that have at least
  two characters. Below 256 the word characters are the letters, the digits and other
  numeric characters, and the underscore.
\<close>

definition is_word_char :: "char \<Rightarrow> bool" where
  "is_word_char c \<longleftrightarrow>
     (let n = (of_char c :: nat) in
        48 \<le> n \<and> n \<le> 57 \<or> 65 \<le> n \<and> n \<le> 90 \<or> n = 95 \<or> 97 \<le> n \<and> n \<le> 122 \<or>
        n = 170 \<or> n = 178 \<or> n = 179 \<or> n = 181 \<or> n = 185 \<or> n = 186 \<or>
        188 \<le> n \<and> n \<le> 190 \<or> 192 \<le> n \<and> n \<le> 214 \<or> 216 \<le> n \<and> n \<le> 246 \<or> 248 \<le> n)"

definition lower_char :: "char \<Rightarrow> char" where
  "lower_char c =
     (let n = (of_char c :: nat) in
        if 65 \<le> n \<and> n \<le> 90 \<or> 192 \<le> n \<and> n \<le> 222 \<and> n \<noteq> 215
        then char_of (n + 32) else c)"

definition str_lower :: "string \<Rightarrow> string" where
  "str_lower s = map lower_char s"

fun word_runs :: "string \<Rightarrow> string \<Rightarrow> string list" where
  "word_runs cur [] = (if cur = [] then [] else [cur])"
| "word_runs cur (c # cs) =
     (if is_word_char c then word_runs (cur @ [c]) cs
      else if cur = [] then word_runs [] cs else cur # word_runs [] cs)"

definition analyze :: "string \<Rightarrow> string list" where
  "analyze doc = filter (\<lambda>t. 2 \<le> length t) (word_runs [] (str_lower doc))"

subsection \<open>Fitting and transforming\<close>

text \<open>
  The vocabulary is the set of the terms of all documents, sorted (Python compares strings
  by code point, lexicographically); a term's dimension is its position. Fitting raises
  \<^verbatim>\<open>ValueError("empty vocabulary; ...")\<close> when no document has a term. The other
  exceptions of the model are the \<^verbatim>\<open>ValueError\<close> of \<^verbatim>\<open>cosine_similarity\<close> on a
  matrix without rows and on matrices of different widths, and Python's
  \<^verbatim>\<open>IndexError\<close>.
\<close>

datatype error = EmptyVocabulary | NoSamples | IncompatibleDimension | IndexError

text \<open>
  A fitted vectorizer: the terms of its \<^verbatim>\<open>vocabulary_\<close> in the order of their dimensions,
  and its \<^verbatim>\<open>idf_\<close>, one weight for each.
\<close>

record tfidf_vectorizer =
  vocab_terms :: "string list"
  idf_weights :: "real list"

definition vocabulary :: "string list \<Rightarrow> string list" where
  "vocabulary docs = sort (remdups (concat (map analyze docs)))"

definition term_counts :: "string list \<Rightarrow> string \<Rightarrow> nat list" where
  "term_counts vocab doc = map (count_list (analyze doc)) vocab"

definition document_frequency :: "string list \<Rightarrow> string \<Rightarrow> nat" where
  "document_frequency docs t = length (filter (\<lambda>d. t \<in> set (analyze d)) docs)"

text \<open>
  The smoothed inverse document frequency, \<^verbatim>\<open>ln((1 + n) / (1 + df)) + 1\<close>.
\<close>

definition idf :: "nat \<Rightarrow> nat \<Rightarrow> real" where
  "idf n df = ln ((1 + real n) / (1 + real df)) + 1"

text \<open>Division by the Euclidean norm; a row of norm 0 is left as it is.\<close>

definition l2_normalize :: "real list \<Rightarrow> real list" where
  "l2_normalize v =
     (let norm = sqrt (sum_list (map (\<lambda>x. x * x) v))
      in if norm = 0 then v else map (\<lambda>x. x / norm) v)"

definition fit :: "string list \<Rightarrow> tfidf_vectorizer" where
  "fit docs =
     \<lparr>vocab_terms = vocabulary docs,
      idf_weights = map (\<lambda>t. idf (length docs) (document_frequency docs t)) (vocabulary docs)\<rparr>"

text \<open>
  The rows of weights of documents under a fitted vocabulary: the count of each term in the
  document times the term's weight, normalized.
\<close>

definition tfidf_rows :: "tfidf_vectorizer \<Rightarrow> string list \<Rightarrow> real list list" where
  "tfidf_rows vectorizer docs =
     map (\<lambda>d. l2_normalize (map2 (\<lambda>c w. real c * w)
                               (term_counts (vocab_terms vectorizer) d) (idf_weights vectorizer)))
         docs"

text \<open>
  \<^verbatim>\<open>vectorizer.transform(docs)\<close> raises \<^verbatim>\<open>ValueError("Vocabulary is empty")\<close> on a
  vectorizer without a term.
\<close>

definition transform :: "tfidf_vectorizer \<Rightarrow> string list \<Rightarrow> error + real list list" where
  "transform vectorizer docs =
     (if vocab_terms vectorizer = [] then Inl EmptyVocabulary
      else Inr (tfidf_rows vectorizer docs))"

definition fit_transform :: "string list \<Rightarrow> error + tfidf_vectorizer \<times> real list list" where
  "fit_transform docs =
     (if vocabulary docs = [] then Inl EmptyVocabulary
      else Inr (fit docs, tfidf_rows (fit docs) docs))"

subsection \<open>\<^verbatim>\<open>cosine_similarity\<close>, \<^verbatim>\<open>argsort\<close> and slices\<close>

definition dot :: "real list \<Rightarrow> real list \<Rightarrow> real" where
  "dot u v = sum_list (map2 (*) u v)"

text \<open>
  \<^verbatim>\<open>cosine_similarity(X, Y)\<close> normalizes the rows of both matrices and multiplies: entry
  \<open>(i, j)\<close> is the cosine of row \<open>i\<close> of \<open>X\<close> and row \<open>j\<close> of \<open>Y\<close>, and 0 when one of them is
  a zero row. A matrix is the list of its rows.
\<close>

definition cosine_similarity :: "real list list \<Rightarrow> real list list \<Rightarrow> error + real list list" where
  "cosine_similarity X Y =
     (if X = [] \<or> Y = [] then Inl NoSamples
      else if \<not> list_all (\<lambda>x. list_all (\<lambda>y. length x = length y) Y) X
      then Inl IncompatibleDimension
      else Inr (map (\<lambda>x. map (\<lambda>y. dot (l2_normalize x) (l2_normalize y)) Y) X))"

text \<open>
  \<^verbatim>\<open>a.argsort()\<close> returns indices that sort \<open>a\<close> in ascending order. NumPy's default
  sort is not stable: which of two indices with equal values comes first is not specified
  and depends on the array and on the platform. The retriever therefore takes
  \<^verbatim>\<open>argsort\<close> as a parameter, a function from the array to the indices, and its
  properties are proved for every function that meets the contract \<open>is_argsort\<close>: the
  result is a permutation of the indices, and the values along it ascend.
\<close>

definition is_argsort :: "real list \<Rightarrow> nat list \<Rightarrow> bool" where
  "is_argsort a order \<longleftrightarrow>
     mset order = mset [0..<length a] \<and> sorted (map (\<lambda>i. a ! i) order)"

text \<open>
  One function that meets the contract, for evaluating examples: the insertion sort of the
  indices, which leaves equal values in the order of their indices.
\<close>

definition stable_argsort :: "real list \<Rightarrow> nat list" where
  "stable_argsort a = sort_key (\<lambda>i. a ! i) [0..<length a]"

text \<open>
  The slice \<^verbatim>\<open>xs[start:]\<close>: a negative \<open>start\<close> counts from the end, and a \<open>start\<close>
  beyond either end is clipped to it.
\<close>

definition slice_from :: "'a list \<Rightarrow> int \<Rightarrow> 'a list" where
  "slice_from xs start =
     (let n = int (length xs);
          s = (if start < 0 then max (start + n) 0 else min start n)
      in drop (nat s) xs)"

section \<open>Retriever: \<^verbatim>\<open>create_vector_store\<close> and \<^verbatim>\<open>retrieve_relevant_chunks\<close>\<close>

text \<open>
  \<^verbatim>\<open>
  vectorizer = TfidfVectorizer()
  vectors = vectorizer.fit_transform(chunks)
  return vectorizer, vectors, chunks
  \<close>
  The function has no check of its own (the \<^verbatim>\<open>print\<close> at its start is left out); it
  fails when the library call does.
\<close>

definition create_vector_store ::
  "string list \<Rightarrow> error + tfidf_vectorizer \<times> real list list \<times> string list" where
  "create_vector_store chunks =
     (case fit_transform chunks of
        Inl e \<Rightarrow> Inl e
      | Inr (vectorizer, vectors) \<Rightarrow> Inr (vectorizer, vectors, chunks))"

text \<open>
  \<^verbatim>\<open>
  query_vector = vectorizer.transform([query])
  similarities = cosine_similarity(query_vector, vectors)[0]
  top_k_indices = similarities.argsort()[-k:][::-1]
  return [chunks[i] for i in top_k_indices]
  \<close>
  The function has no check of \<open>k\<close>. Its steps are separate definitions, so that the
  properties can name the similarities and the indices: \<open>similarities\<close> is the first two
  lines, \<open>top_k_indices\<close> the third, \<open>chunks_at\<close> the list comprehension, which raises
  \<^verbatim>\<open>IndexError\<close> on an index beyond the list.

  The similarities are computed over the real numbers. The 64-bit floats of the code can
  differ from them by rounding (they agree where every product is 0), so the properties of
  the ranking are stated for every array of scores of the right length, not only for the
  one that \<open>similarities\<close> computes.
\<close>

definition similarities ::
  "string \<Rightarrow> tfidf_vectorizer \<Rightarrow> real list list \<Rightarrow> error + real list" where
  "similarities query vectorizer vectors =
     (case transform vectorizer [query] of
        Inl e \<Rightarrow> Inl e
      | Inr query_vector \<Rightarrow>
          (case cosine_similarity query_vector vectors of
             Inl e \<Rightarrow> Inl e
           | Inr rows \<Rightarrow> Inr (hd rows)))"

definition top_k_indices :: "(real list \<Rightarrow> nat list) \<Rightarrow> real list \<Rightarrow> int \<Rightarrow> nat list" where
  "top_k_indices argsort sims k = rev (slice_from (argsort sims) (- k))"

definition chunks_at :: "string list \<Rightarrow> nat list \<Rightarrow> error + string list" where
  "chunks_at chunks indices =
     (if list_all (\<lambda>i. i < length chunks) indices
      then Inr (map (\<lambda>i. chunks ! i) indices)
      else Inl IndexError)"

definition retrieve_relevant_chunks ::
  "(real list \<Rightarrow> nat list) \<Rightarrow> string \<Rightarrow> tfidf_vectorizer \<Rightarrow> real list list \<Rightarrow> string list \<Rightarrow> int
     \<Rightarrow> error + string list" where
  "retrieve_relevant_chunks argsort query vectorizer vectors chunks k =
     (case similarities query vectorizer vectors of
        Inl e \<Rightarrow> Inl e
      | Inr sims \<Rightarrow> chunks_at chunks (top_k_indices argsort sims k))"

section \<open>Properties of the string operations\<close>

lemma isspace_space [simp]: "isspace CHR '' ''"
  by (simp add: isspace_def)

lemma words_from_run:
  "\<forall>c\<in>set u. \<not> isspace c \<Longrightarrow> words_from cur (u @ s) = words_from (cur @ u) s"
  by (induction u arbitrary: cur) simp_all

lemma words_from_is_word:
  "w \<in> set (words_from cur s) \<Longrightarrow> \<forall>c\<in>set cur. \<not> isspace c \<Longrightarrow> is_word w"
proof (induction s arbitrary: cur)
  case Nil
  then show ?case by (auto simp: is_word_def split: if_splits)
next
  case (Cons c cs)
  show ?case
  proof (cases "isspace c")
    case True
    with Cons.prems have "w = cur \<and> cur \<noteq> [] \<or> w \<in> set (words_from [] cs)"
      by (auto split: if_splits)
    then show ?thesis
      using Cons.IH [of "[]"] Cons.prems(2) by (auto simp: is_word_def)
  next
    case False
    with Cons.prems have "w \<in> set (words_from (cur @ [c]) cs)" by simp
    then show ?thesis
      using Cons.IH [of "cur @ [c]"] Cons.prems(2) False by auto
  qed
qed

lemma str_split_is_word: "w \<in> set (str_split s) \<Longrightarrow> is_word w"
  using words_from_is_word [of w "[]" s] by (simp add: str_split_def)

lemma words_from_sep:
  "isspace sp \<Longrightarrow> words_from cur (a @ sp # b) = words_from cur a @ words_from [] b"
  by (induction a arbitrary: cur) simp_all

lemma words_from_drop_leading: "words_from [] (dropWhile isspace s) = words_from [] s"
  by (induction s) simp_all

lemma words_from_drop_trailing:
  "words_from cur (rev (dropWhile isspace r)) = words_from cur (rev r)"
proof (induction r)
  case Nil
  show ?case by simp
next
  case (Cons c r)
  show ?case
  proof (cases "isspace c")
    case True
    have "words_from cur (rev r @ c # []) = words_from cur (rev r) @ words_from [] []"
      using True by (rule words_from_sep)
    with True Cons.IH show ?thesis by simp
  next
    case False
    then show ?thesis by simp
  qed
qed

lemma str_split_strip: "str_split (str_strip s) = str_split s"
  by (simp add: str_split_def str_strip_def words_from_drop_trailing words_from_drop_leading)

lemma str_split_word_space: "is_word w \<Longrightarrow> str_split (w @ '' '') = [w]"
  using words_from_run [of w "[]" "'' ''"] by (simp add: str_split_def is_word_def)

lemma str_strip_word_space: "is_word w \<Longrightarrow> str_strip (w @ '' '') = w"
proof -
  assume w: "is_word w"
  then obtain c u where cu: "w = c # u" by (cases w) (auto simp: is_word_def)
  with w have c: "\<not> isspace c" by (simp add: is_word_def)
  from w obtain d v where dv: "rev w = d # v" by (cases "rev w") (auto simp: is_word_def)
  then have "d \<in> set w" by (metis list.set_intros(1) set_rev)
  with w have d: "\<not> isspace d" by (simp add: is_word_def)
  have "dropWhile isspace (w @ '' '') = w @ '' ''" using cu c by simp
  then have "str_strip (w @ '' '') = rev (dropWhile isspace (CHR '' '' # rev w))"
    by (simp add: str_strip_def)
  also have "\<dots> = rev (dropWhile isspace (rev w))" by simp
  also have "\<dots> = rev (rev w)" using dv d by simp
  finally show ?thesis by simp
qed

lemma length_str_strip: "length (str_strip s) \<le> length s"
proof -
  have "length (str_strip s) \<le> length (dropWhile isspace s)"
    unfolding str_strip_def using length_dropWhile_le [of isspace "rev (dropWhile isspace s)"] by simp
  also have "\<dots> \<le> length s" by (rule length_dropWhile_le)
  finally show ?thesis .
qed

lemma str_split_append_word:
  assumes "cur = [] \<or> isspace (last cur)" and "is_word w"
  shows "str_split (cur @ w @ '' '') = str_split cur @ [w]"
proof (cases "cur = []")
  case True
  with assms(2) show ?thesis by (simp add: str_split_word_space) (simp add: str_split_def)
next
  case False
  with assms(1) obtain a sp where a: "cur = a @ [sp]" and sp: "isspace sp"
    by (metis append_butlast_last_id)
  have "str_split (cur @ w @ '' '') = words_from [] (a @ sp # (w @ '' ''))"
    by (simp add: a str_split_def)
  also have "\<dots> = words_from [] a @ words_from [] (w @ '' '')"
    using sp by (rule words_from_sep)
  also have "words_from [] a = words_from [] (a @ sp # [])"
    using words_from_sep [OF sp, of "[]" a "[]"] by simp
  finally show ?thesis
    using str_split_word_space [OF assms(2)] by (simp add: a str_split_def)
qed

lemma str_split_join:
  "str_split (str_join '' '' xs) = concat (map str_split xs)"
proof (induction xs)
  case Nil
  show ?case by (simp add: str_split_def)
next
  case (Cons x xs)
  show ?case
  proof (cases xs)
    case Nil
    then show ?thesis by simp
  next
    case (Cons y zs)
    have "str_split (x @ CHR '' '' # str_join '' '' (y # zs))
            = words_from [] x @ words_from [] (str_join '' '' (y # zs))"
      unfolding str_split_def by (rule words_from_sep) simp
    with Cons Cons.IH show ?thesis by (simp add: str_split_def)
  qed
qed

section \<open>Properties of the chunker\<close>

subsection \<open>The loop\<close>

text \<open>
  The buffer is empty or ends with the space appended after its last word, and the words
  of the finished fragments followed by those of the buffer are the words consumed so far.
\<close>

lemma chunk_loop_tokens:
  "\<forall>w\<in>set ws. is_word w \<Longrightarrow> cur = [] \<or> isspace (last cur) \<Longrightarrow>
   chunk_loop cs ws (chunks, cur) = (chunks', cur') \<Longrightarrow>
   (cur' = [] \<or> isspace (last cur')) \<and>
   concat (map str_split chunks') @ str_split cur'
     = concat (map str_split chunks) @ str_split cur @ ws"
proof (induction ws arbitrary: chunks cur)
  case Nil
  then show ?case by simp
next
  case (Cons w ws)
  from Cons.prems(1) have w: "is_word w" and ws: "\<forall>w\<in>set ws. is_word w" by simp_all
  show ?case
  proof (cases "int (length cur) + int (length w) + 1 \<le> cs")
    case True
    with Cons.prems(3) have "chunk_loop cs ws (chunks, cur @ w @ '' '') = (chunks', cur')" by simp
    from Cons.IH [OF ws _ this] str_split_append_word [OF Cons.prems(2) w]
    show ?thesis by simp
  next
    case False
    with Cons.prems(3)
    have "chunk_loop cs ws (chunks @ [str_strip cur], w @ '' '') = (chunks', cur')" by simp
    from Cons.IH [OF ws _ this] str_split_word_space [OF w]
    show ?thesis by (simp add: str_split_strip)
  qed
qed

text \<open>
  Every finished fragment is within \<open>chunk_size\<close> or is one word of the text that is
  longer; the buffer is within \<open>chunk_size\<close> (its trailing space counted) or holds one
  word of the text.
\<close>

lemma chunk_loop_bound:
  assumes "\<forall>w\<in>set ws. w \<in> S \<and> is_word w"
    and "\<forall>f\<in>set chunks. int (length f) \<le> cs \<or> f \<in> S \<and> cs < int (length f)"
    and "int (length cur) \<le> cs \<or> (\<exists>w\<in>S. is_word w \<and> cur = w @ '' '')"
    and "chunk_loop cs ws (chunks, cur) = (chunks', cur')"
  shows "(\<forall>f\<in>set chunks'. int (length f) \<le> cs \<or> f \<in> S \<and> cs < int (length f)) \<and>
         (int (length cur') \<le> cs \<or> (\<exists>w\<in>S. is_word w \<and> cur' = w @ '' ''))"
  using assms
proof (induction ws arbitrary: chunks cur)
  case Nil
  then show ?case by simp
next
  case (Cons w ws)
  from Cons.prems(1) have w: "w \<in> S" "is_word w"
    and ws: "\<forall>w\<in>set ws. w \<in> S \<and> is_word w" by simp_all
  show ?case
  proof (cases "int (length cur) + int (length w) + 1 \<le> cs")
    case True
    with Cons.prems(4) have l: "chunk_loop cs ws (chunks, cur @ w @ '' '') = (chunks', cur')"
      by simp
    from True have "int (length (cur @ w @ '' '')) \<le> cs" by simp
    then have "int (length (cur @ w @ '' '')) \<le> cs
                 \<or> (\<exists>v\<in>S. is_word v \<and> cur @ w @ '' '' = v @ '' '')" ..
    from Cons.IH [OF ws Cons.prems(2) this l] show ?thesis .
  next
    case False
    with Cons.prems(4)
    have l: "chunk_loop cs ws (chunks @ [str_strip cur], w @ '' '') = (chunks', cur')" by simp
    have s: "int (length (str_strip cur)) \<le> cs
               \<or> str_strip cur \<in> S \<and> cs < int (length (str_strip cur))"
    proof (cases "int (length cur) \<le> cs")
      case True
      with length_str_strip [of cur] show ?thesis by simp
    next
      case False
      with Cons.prems(3) obtain v where "v \<in> S" "is_word v" "cur = v @ '' ''" by blast
      then show ?thesis by (auto simp: str_strip_word_space)
    qed
    with Cons.prems(2)
    have c: "\<forall>f\<in>set (chunks @ [str_strip cur]).
               int (length f) \<le> cs \<or> f \<in> S \<and> cs < int (length f)" by auto
    have "int (length (w @ '' '')) \<le> cs \<or> (\<exists>v\<in>S. is_word v \<and> w @ '' '' = v @ '' '')"
      using w by blast
    from Cons.IH [OF ws c this l] show ?thesis .
  qed
qed

text \<open>The loop only appends to the list of finished fragments.\<close>

lemma chunk_loop_prefix: "\<exists>more. fst (chunk_loop cs ws (chunks, cur)) = chunks @ more"
proof (induction ws arbitrary: chunks cur)
  case Nil
  show ?case by simp
next
  case (Cons w ws)
  show ?case
  proof (cases "int (length cur) + int (length w) + 1 \<le> cs")
    case True
    with Cons.IH [of chunks "cur @ w @ '' ''"] show ?thesis by simp
  next
    case False
    from Cons.IH [of "chunks @ [str_strip cur]" "w @ '' ''"]
    obtain more where "fst (chunk_loop cs ws (chunks @ [str_strip cur], w @ '' ''))
                         = chunks @ str_strip cur # more" by auto
    with False show ?thesis by simp
  qed
qed

text \<open>
  When \<open>chunk_size\<close> is not positive the test of the loop fails for every word: each word
  closes the buffer before it.
\<close>

lemma chunk_loop_nonpos:
  "cs \<le> 0 \<Longrightarrow> \<forall>w\<in>set ws. is_word w \<Longrightarrow> ws \<noteq> [] \<Longrightarrow>
   chunk_loop cs ws (chunks, cur) = (chunks @ str_strip cur # butlast ws, last ws @ '' '')"
proof (induction ws arbitrary: chunks cur)
  case Nil
  then show ?case by simp
next
  case (Cons w ws)
  have step: "chunk_loop cs (w # ws) (chunks, cur)
                = chunk_loop cs ws (chunks @ [str_strip cur], w @ '' '')"
    using Cons.prems(1) by simp
  show ?case
  proof (cases "ws = []")
    case True
    with step show ?thesis by simp
  next
    case False
    from Cons.prems(2) have w: "is_word w" and ws: "\<forall>w\<in>set ws. is_word w" by simp_all
    from Cons.IH [OF Cons.prems(1) ws False, of "chunks @ [str_strip cur]" "w @ '' ''"] step False
    show ?thesis by (simp add: str_strip_word_space [OF w])
  qed
qed

subsection \<open>C1: the scenario of six words with \<open>chunk_size = 11\<close>\<close>

text \<open>
  C1, as stated: on \<^verbatim>\<open>"alpha beta gamma alpha beta alpha"\<close> with \<open>chunk_size = 11\<close> the
  chunker returns the three fragments \<^verbatim>\<open>"alpha beta"\<close>, \<^verbatim>\<open>"gamma alpha"\<close>,
  \<^verbatim>\<open>"beta alpha"\<close>. The code does not: the buffer \<^verbatim>\<open>"gamma "\<close> has length 6 with
  its trailing space, and \<open>6 + 5 + 1 = 12\<close> exceeds 11, so \<^verbatim>\<open>"gamma"\<close> is closed alone.
\<close>

theorem C1_scenario_three_fragments_counterexample:
  "split_into_chunks ''alpha beta gamma alpha beta alpha'' 11
     \<noteq> [''alpha beta'', ''gamma alpha'', ''beta alpha'']"
  by (simp add: split_into_chunks_def str_split_def str_strip_def isspace_def)

text \<open>
  C1, amended: on \<^verbatim>\<open>"alpha beta gamma alpha beta alpha"\<close> with \<open>chunk_size = 11\<close> the
  chunker returns exactly the four fragments \<^verbatim>\<open>"alpha beta"\<close>, \<^verbatim>\<open>"gamma"\<close>,
  \<^verbatim>\<open>"alpha beta"\<close>, \<^verbatim>\<open>"alpha"\<close>.
\<close>

theorem C1_scenario_four_fragments:
  "split_into_chunks ''alpha beta gamma alpha beta alpha'' 11
     = [''alpha beta'', ''gamma'', ''alpha beta'', ''alpha'']"
  by (simp add: split_into_chunks_def str_split_def str_strip_def isspace_def)

subsection \<open>C4: a \<open>chunk_size\<close> that is not positive\<close>

text \<open>
  C4, as stated: with \<open>chunk_size \<le> 0\<close> the chunker fails and returns no fragments. The
  code has no check of \<open>chunk_size\<close> and no failing path: on \<^verbatim>\<open>"a b"\<close> with
  \<open>chunk_size = 0\<close> it returns three fragments, the first of them empty.
\<close>

theorem C4_nonpositive_size_returns_counterexample:
  "split_into_chunks ''a b'' 0 = [[], ''a'', ''b'']"
  by (simp add: split_into_chunks_def str_split_def str_strip_def isspace_def)

text \<open>
  C4, amended: with \<open>chunk_size \<le> 0\<close> the chunker does not fail. For a text without
  words it returns no fragment; for any other text it returns the empty fragment followed
  by every word of the text as a fragment of its own, in order.
\<close>

theorem C4_nonpositive_size_one_word_per_fragment:
  assumes "cs \<le> 0"
  shows "split_into_chunks text cs = (if str_split text = [] then [] else [] # str_split text)"
proof (cases "str_split text = []")
  case True
  then show ?thesis by (simp add: split_into_chunks_def)
next
  case False
  have ws: "\<forall>w\<in>set (str_split text). is_word w" by (simp add: str_split_is_word)
  have lw: "is_word (last (str_split text))" using False ws by simp
  from chunk_loop_nonpos [OF assms ws False, of "[]" "[]"] False
  show ?thesis
    by (simp add: split_into_chunks_def str_strip_word_space [OF lw]) (simp add: str_strip_def)
qed

theorem C4_nonpositive_size_one_word_per_fragment_witness:
  "(-3::int) \<le> 0 \<and> split_into_chunks ''to be  or'' (-3) = [[], ''to'', ''be'', ''or'']"
  using C4_nonpositive_size_one_word_per_fragment [of "-3" "''to be  or''"]
  by (simp add: str_split_def isspace_def)

subsection \<open>C5: the bound on the length of a fragment\<close>

text \<open>
  C5: for every text (the empty one too) and every \<open>chunk_size > 0\<close>, every fragment that
  the chunker returns has at most \<open>chunk_size\<close> characters, unless it is a single word of
  the text that is longer than \<open>chunk_size\<close>.
\<close>

theorem C5_fragment_length_bound:
  assumes "0 < cs" and "f \<in> set (split_into_chunks text cs)"
  shows "int (length f) \<le> cs \<or> f \<in> set (str_split text) \<and> cs < int (length f)"
proof -
  let ?S = "set (str_split text)"
  obtain chunks cur where l: "chunk_loop cs (str_split text) ([], []) = (chunks, cur)"
    by (cases "chunk_loop cs (str_split text) ([], [])")
  have ws: "\<forall>w\<in>set (str_split text). w \<in> ?S \<and> is_word w"
    by (simp add: str_split_is_word)
  have c0: "\<forall>f\<in>set ([]::string list). int (length f) \<le> cs \<or> f \<in> ?S \<and> cs < int (length f)"
    by simp
  have q0: "int (length ([]::string)) \<le> cs \<or> (\<exists>w\<in>?S. is_word w \<and> [] = w @ '' '')"
    using assms(1) by simp
  from chunk_loop_bound [OF ws c0 q0 l]
  have c: "\<forall>f\<in>set chunks. int (length f) \<le> cs \<or> f \<in> ?S \<and> cs < int (length f)"
    and q: "int (length cur) \<le> cs \<or> (\<exists>w\<in>?S. is_word w \<and> cur = w @ '' '')" by simp_all
  have s: "int (length (str_strip cur)) \<le> cs
             \<or> str_strip cur \<in> ?S \<and> cs < int (length (str_strip cur))"
  proof (cases "int (length cur) \<le> cs")
    case True
    with length_str_strip [of cur] show ?thesis by simp
  next
    case False
    with q obtain v where "v \<in> ?S" "is_word v" "cur = v @ '' ''" by blast
    then show ?thesis by (auto simp: str_strip_word_space)
  qed
  from assms(2) l have "f \<in> set chunks \<or> f = str_strip cur"
    by (auto simp: split_into_chunks_def split: if_splits)
  with c s show ?thesis by blast
qed

theorem C5_fragment_length_bound_witness:
  "(0::int) < 5 \<and> ''abcdef'' \<in> set (split_into_chunks ''gh i abcdef j'' 5) \<and>
   ''gh i'' \<in> set (split_into_chunks ''gh i abcdef j'' 5) \<and>
   (int (length ''abcdef'') \<le> 5 \<or>
      ''abcdef'' \<in> set (str_split ''gh i abcdef j'') \<and> 5 < int (length ''abcdef''))"
proof -
  have p: "(0::int) < 5" by simp
  have s: "split_into_chunks ''gh i abcdef j'' 5 = [''gh i'', ''abcdef'', ''j'']"
    by (simp add: split_into_chunks_def str_split_def str_strip_def isspace_def)
  have f: "''abcdef'' \<in> set (split_into_chunks ''gh i abcdef j'' 5)"
    by (simp add: s)
  from C5_fragment_length_bound [OF p f] p f s show ?thesis by simp
qed

subsection \<open>C6: the fragments hold the words of the text, in order\<close>

text \<open>
  C6: for every text and every \<open>chunk_size\<close> (positive or not), the fragments joined with
  single spaces split at whitespace into the same sequence of words as the text.
\<close>

theorem C6_fragments_reconstruct_words:
  "str_split (str_join '' '' (split_into_chunks text chunk_size)) = str_split text"
proof -
  obtain chunks cur where l: "chunk_loop chunk_size (str_split text) ([], []) = (chunks, cur)"
    by (cases "chunk_loop chunk_size (str_split text) ([], [])")
  have ws: "\<forall>w\<in>set (str_split text). is_word w"
    by (simp add: str_split_is_word)
  from chunk_loop_tokens [OF ws _ l]
  have e: "concat (map str_split chunks) @ str_split cur = str_split text"
    by (simp add: str_split_def)
  show ?thesis
  proof (cases "cur = []")
    case True
    with e l show ?thesis
      by (simp add: split_into_chunks_def str_split_join) (simp add: str_split_def)
  next
    case False
    with e l show ?thesis
      by (simp add: split_into_chunks_def str_split_join str_split_strip)
  qed
qed

subsection \<open>C10: a first word that does not fit\<close>

text \<open>
  C10: when the first word of the text has at least \<open>chunk_size\<close> characters, the first
  fragment that the chunker returns is the empty string, and the second is that word alone.
  This holds for every \<open>chunk_size\<close>, the positive ones among them.
\<close>

theorem C10_empty_first_fragment:
  assumes "str_split text = w # ws" and "cs \<le> int (length w)"
  shows "hd (split_into_chunks text cs) = [] \<and>
         (\<exists>rest. split_into_chunks text cs = [] # w # rest)"
proof -
  have w: "is_word w" using assms(1) str_split_is_word [of w "text"] by simp
  have st: "str_strip [] = []" by (simp add: str_strip_def)
  have first: "chunk_loop cs (w # ws) ([], []) = chunk_loop cs ws ([[]], w @ '' '')"
    using assms(2) by (simp add: st)
  show ?thesis
  proof (cases ws)
    case Nil
    with first assms(1) show ?thesis
      by (simp add: split_into_chunks_def str_strip_word_space [OF w])
  next
    case (Cons v vs)
    obtain chunks cur where l: "chunk_loop cs vs ([[], w], v @ '' '') = (chunks, cur)"
      by (cases "chunk_loop cs vs ([[], w], v @ '' '')")
    from chunk_loop_prefix [of cs vs "[[], w]" "v @ '' ''"] l
    obtain more where m: "chunks = [] # w # more" by auto
    have "chunk_loop cs (str_split text) ([], []) = (chunks, cur)"
      using first assms Cons l by (simp add: str_strip_word_space [OF w])
    then show ?thesis using m by (simp add: split_into_chunks_def)
  qed
qed

theorem C10_empty_first_fragment_witness:
  "str_split ''abcdef gh i'' = ''abcdef'' # [''gh'', ''i''] \<and> (5::int) \<le> int (length ''abcdef'') \<and>
   hd (split_into_chunks ''abcdef gh i'' 5) = [] \<and>
   split_into_chunks ''abcdef gh i'' 5 = [[], ''abcdef'', ''gh i'']"
proof -
  have s: "str_split ''abcdef gh i'' = ''abcdef'' # [''gh'', ''i'']"
    by (simp add: str_split_def isspace_def)
  have l: "(5::int) \<le> int (length ''abcdef'')" by simp
  have v: "split_into_chunks ''abcdef gh i'' 5 = [[], ''abcdef'', ''gh i'']"
    by (simp add: split_into_chunks_def str_split_def str_strip_def isspace_def)
  from C10_empty_first_fragment [OF s l] s l v show ?thesis by simp
qed

section \<open>Properties of the library operations\<close>

lemma vocabulary_empty_iff: "vocabulary docs = [] \<longleftrightarrow> concat (map analyze docs) = []"
proof -
  have "vocabulary docs = [] \<longleftrightarrow> set (vocabulary docs) = {}" by simp
  also have "\<dots> \<longleftrightarrow> set (concat (map analyze docs)) = {}" by (simp add: vocabulary_def)
  finally show ?thesis by simp
qed

lemma set_vocabulary: "set (vocabulary docs) = (\<Union>d\<in>set docs. set (analyze d))"
  by (simp add: vocabulary_def)

lemma create_vector_store_Inr:
  "create_vector_store frags = Inr (vectorizer, vectors, chunks) \<longleftrightarrow>
   vocabulary frags \<noteq> [] \<and> vectorizer = fit frags \<and>
   vectors = tfidf_rows (fit frags) frags \<and> chunks = frags"
  by (auto simp: create_vector_store_def fit_transform_def)

lemma vocabulary_Nil: "vocabulary [] = []"
  by (simp add: vocabulary_def)

lemma length_l2_normalize: "length (l2_normalize v) = length v"
  by (simp add: l2_normalize_def Let_def)

lemma length_tfidf_row:
  "row \<in> set (tfidf_rows (fit frags) docs) \<Longrightarrow> length row = length (vocabulary frags)"
  by (auto simp: tfidf_rows_def fit_def length_l2_normalize term_counts_def)

lemma length_tfidf: "length (tfidf_rows vectorizer docs) = length docs"
  by (simp add: tfidf_rows_def)

lemma similarities_built:
  assumes "vocabulary frags \<noteq> []"
  shows "similarities query (fit frags) (tfidf_rows (fit frags) frags)
           = Inr (map (\<lambda>y. dot (l2_normalize (hd (tfidf_rows (fit frags) [query]))) (l2_normalize y))
                      (tfidf_rows (fit frags) frags))"
proof -
  from assms have ne: "frags \<noteq> []" by (auto simp: vocabulary_Nil)
  then have v: "tfidf_rows (fit frags) frags \<noteq> []" by (simp add: tfidf_rows_def)
  have f: "vocab_terms (fit frags) \<noteq> []" using assms by (simp add: fit_def)
  have c: "list_all (\<lambda>x. list_all (\<lambda>y. length x = length y) (tfidf_rows (fit frags) frags))
             (tfidf_rows (fit frags) [query])"
    by (simp add: list_all_iff length_tfidf_row)
  obtain r where r: "tfidf_rows (fit frags) [query] = [r]" by (simp add: tfidf_rows_def)
  show ?thesis
    using v c r f by (simp add: similarities_def transform_def cosine_similarity_def)
qed

lemma map_constant:
  "(\<And>x. x \<in> set xs \<Longrightarrow> f x = c) \<Longrightarrow> map f xs = replicate (length xs) c"
  by (induction xs) simp_all

lemma weigh_zero_counts:
  "map2 (\<lambda>c w. real c * w) (replicate n 0) ws = replicate (min n (length ws)) 0"
proof (induction n arbitrary: ws)
  case 0
  show ?case by simp
next
  case (Suc n)
  show ?case by (cases ws) (simp_all add: Suc)
qed

lemma dot_zeros: "dot (replicate n 0) v = 0"
proof (induction n arbitrary: v)
  case 0
  show ?case by (simp add: dot_def)
next
  case (Suc n)
  show ?case
  proof (cases v)
    case Nil
    then show ?thesis by (simp add: dot_def)
  next
    case (Cons x xs)
    with Suc [of xs] show ?thesis by (simp add: dot_def)
  qed
qed

lemma l2_normalize_zeros: "l2_normalize (replicate n 0) = replicate n 0"
  by (simp add: l2_normalize_def Let_def)

lemma unknown_query_row:
  assumes "\<forall>t\<in>set (analyze query). t \<notin> set (vocab_terms vectorizer)"
  shows "\<exists>n. tfidf_rows vectorizer [query] = [replicate n 0]"
proof -
  have z: "\<And>t. t \<in> set (vocab_terms vectorizer) \<Longrightarrow> count_list (analyze query) t = 0"
    using assms by (auto simp: count_list_0_iff)
  have "term_counts (vocab_terms vectorizer) query = replicate (length (vocab_terms vectorizer)) 0"
    unfolding term_counts_def by (rule map_constant) (rule z)
  then have "map2 (\<lambda>c w. real c * w) (term_counts (vocab_terms vectorizer) query) (idf_weights vectorizer)
               = replicate (min (length (vocab_terms vectorizer)) (length (idf_weights vectorizer))) 0"
    by (simp add: weigh_zero_counts)
  then show ?thesis
    by (simp add: tfidf_rows_def l2_normalize_zeros)
qed

lemma similarities_unknown:
  assumes "vocabulary frags \<noteq> []"
    and "\<forall>t\<in>set (analyze query). t \<notin> set (vocabulary frags)"
  shows "similarities query (fit frags) (tfidf_rows (fit frags) frags)
           = Inr (replicate (length frags) 0)"
proof -
  from assms(2) have "\<forall>t\<in>set (analyze query). t \<notin> set (vocab_terms (fit frags))"
    by (simp add: fit_def)
  from unknown_query_row [OF this] obtain n
    where n: "tfidf_rows (fit frags) [query] = [replicate n 0]" ..
  have "map (\<lambda>y. dot (l2_normalize (replicate n 0)) (l2_normalize y)) (tfidf_rows (fit frags) frags)
          = replicate (length frags) 0"
    using map_constant [of "tfidf_rows (fit frags) frags"
                           "\<lambda>y. dot (l2_normalize (replicate n 0)) (l2_normalize y)" 0]
    by (simp add: length_tfidf l2_normalize_zeros dot_zeros)
  with similarities_built [OF assms(1), of query] n show ?thesis by simp
qed

subsection \<open>The contract of \<^verbatim>\<open>argsort\<close> and the slice\<close>

text \<open>
  What follows from the contract alone: the indices are all there, each once, and the
  scores ascend along them. \<^const>\<open>top_k_indices\<close> reverses a suffix of them, so the
  scores descend along it, whatever the order of equal scores.
\<close>

lemma is_argsort_length: "is_argsort a order \<Longrightarrow> length order = length a"
  unfolding is_argsort_def by (metis size_mset length_upt diff_zero)

lemma is_argsort_set: "is_argsort a order \<Longrightarrow> set order = {0..<length a}"
  unfolding is_argsort_def by (metis set_mset_mset set_upt)

lemma is_argsort_sorted:
  "is_argsort a order \<Longrightarrow> sorted_wrt (\<lambda>i j. a ! i \<le> a ! j) order"
  by (simp add: is_argsort_def sorted_map)

lemma stable_argsort_is_argsort: "is_argsort a (stable_argsort a)"
  by (simp add: is_argsort_def stable_argsort_def)

lemma top_k_indices_sorted:
  assumes "is_argsort a (argsort a)"
  shows "sorted_wrt (\<lambda>i j. a ! j \<le> a ! i) (top_k_indices argsort a k)"
proof -
  have "sorted_wrt (\<lambda>i j. a ! i \<le> a ! j) (slice_from (argsort a) (- k))"
    unfolding slice_from_def Let_def
    by (rule sorted_wrt_drop) (rule is_argsort_sorted [OF assms])
  then show ?thesis by (simp add: top_k_indices_def sorted_wrt_rev)
qed

lemma top_k_indices_bound:
  assumes "is_argsort a (argsort a)" and "i \<in> set (top_k_indices argsort a k)"
  shows "i < length a"
proof -
  from assms(2) have "i \<in> set (argsort a)"
    by (auto simp: top_k_indices_def slice_from_def Let_def dest: in_set_dropD)
  then show ?thesis by (simp add: is_argsort_set [OF assms(1)])
qed

lemma top_k_indices_pos:
  assumes "is_argsort a (argsort a)" and "0 < k"
  shows "top_k_indices argsort a k = rev (drop (length a - nat k) (argsort a))"
proof -
  have "nat (max (- k + int (length a)) 0) = length a - nat k" using assms(2) by auto
  with assms(2) show ?thesis
    by (simp add: top_k_indices_def slice_from_def is_argsort_length [OF assms(1)])
qed

lemma top_k_indices_nonpos:
  assumes "is_argsort a (argsort a)" and "k \<le> 0"
  shows "top_k_indices argsort a k = rev (drop (nat (- k)) (argsort a))"
proof (cases "- k \<le> int (length a)")
  case True
  with assms(2) show ?thesis
    by (simp add: top_k_indices_def slice_from_def is_argsort_length [OF assms(1)] min_def)
next
  case False
  with assms(2) show ?thesis
    by (simp add: top_k_indices_def slice_from_def is_argsort_length [OF assms(1)] min_def)
qed

lemma chunks_at_top_k:
  assumes "is_argsort scores (argsort scores)" and "length scores = length chunks"
  shows "chunks_at chunks (top_k_indices argsort scores k)
           = Inr (map (\<lambda>i. chunks ! i) (top_k_indices argsort scores k))"
proof -
  have "list_all (\<lambda>i. i < length chunks) (top_k_indices argsort scores k)"
    using top_k_indices_bound [of scores argsort _ k] assms by (auto simp: list_all_iff)
  then show ?thesis by (simp add: chunks_at_def)
qed

lemma dropped_below_kept:
  assumes "is_argsort a order" and "i \<in> set (take m order)" and "j \<in> set (drop m order)"
  shows "a ! i \<le> a ! j"
proof -
  have "sorted_wrt (\<lambda>i j. a ! i \<le> a ! j) (take m order @ drop m order)"
    using is_argsort_sorted [OF assms(1)] by simp
  with assms(2,3) show ?thesis unfolding sorted_wrt_append by blast
qed

lemma similarities_length:
  assumes "vocabulary frags \<noteq> []"
  shows "\<exists>sims. similarities query (fit frags) (tfidf_rows (fit frags) frags) = Inr sims \<and>
               length sims = length frags"
  using similarities_built [OF assms, of query] by (simp add: length_tfidf)

lemma retrieve_built:
  assumes "create_vector_store frags = Inr (vectorizer, vectors, chunks)"
  shows "\<exists>sims. similarities query vectorizer vectors = Inr sims \<and>
               length sims = length chunks \<and>
               retrieve_relevant_chunks argsort query vectorizer vectors chunks k
                 = chunks_at chunks (top_k_indices argsort sims k)"
proof -
  from assms have v: "vocabulary frags \<noteq> []" and e: "vectorizer = fit frags"
    "vectors = tfidf_rows (fit frags) frags" "chunks = frags"
    by (simp_all add: create_vector_store_Inr)
  from similarities_length [OF v, of query] obtain sims
    where "similarities query (fit frags) (tfidf_rows (fit frags) frags) = Inr sims"
      and "length sims = length frags" by blast
  with e show ?thesis by (simp add: retrieve_relevant_chunks_def)
qed

section \<open>Properties of the retriever\<close>

subsection \<open>The index of three fragments\<close>

text \<open>
  The fragments \<^verbatim>\<open>"alpha beta"\<close>, \<^verbatim>\<open>"gamma alpha"\<close>, \<^verbatim>\<open>"beta alpha"\<close> and the
  query \<^verbatim>\<open>"zzz"\<close>, which has no term of theirs: every similarity is 0, in floats as in
  the reals.
\<close>

lemma scenario_analyze:
  "analyze ''alpha beta'' = [''alpha'', ''beta'']"
  "analyze ''gamma alpha'' = [''gamma'', ''alpha'']"
  "analyze ''beta alpha'' = [''beta'', ''alpha'']"
  "analyze ''zzz'' = [''zzz'']"
  by (simp_all add: analyze_def str_lower_def lower_char_def is_word_char_def)

lemma scenario_built:
  "create_vector_store [''alpha beta'', ''gamma alpha'', ''beta alpha'']
     = Inr (fit [''alpha beta'', ''gamma alpha'', ''beta alpha''],
            tfidf_rows (fit [''alpha beta'', ''gamma alpha'', ''beta alpha''])
              [''alpha beta'', ''gamma alpha'', ''beta alpha''],
            [''alpha beta'', ''gamma alpha'', ''beta alpha''])"
  by (simp add: create_vector_store_Inr vocabulary_empty_iff scenario_analyze)


lemma scenario_similarities:
  "similarities ''zzz'' (fit [''alpha beta'', ''gamma alpha'', ''beta alpha''])
     (tfidf_rows (fit [''alpha beta'', ''gamma alpha'', ''beta alpha''])
        [''alpha beta'', ''gamma alpha'', ''beta alpha''])
     = Inr [0, 0, 0]"
proof -
  have v: "vocabulary [''alpha beta'', ''gamma alpha'', ''beta alpha''] \<noteq> []"
    by (simp add: vocabulary_empty_iff scenario_analyze)
  have u: "\<forall>t\<in>set (analyze ''zzz'').
             t \<notin> set (vocabulary [''alpha beta'', ''gamma alpha'', ''beta alpha''])"
    by (simp add: set_vocabulary scenario_analyze)
  from similarities_unknown [OF v u] show ?thesis by (simp add: numeral_3_eq_3)
qed

lemma scenario_argsort: "stable_argsort [0, 0, 0] = [0, 1, 2]"
  by (simp add: stable_argsort_def upt_rec)

lemma scenario_top:
  "top_k_indices stable_argsort [0, 0, 0] 2 = [2, 1]"
  "top_k_indices stable_argsort [0, 0, 0] 0 = [2, 1, 0]"
  "top_k_indices stable_argsort [0, 0, 0] (- 1) = [2, 1]"
  "top_k_indices stable_argsort [0, 0, 0] 100 = [2, 1, 0]"
  by (simp_all add: top_k_indices_def scenario_argsort slice_from_def)

subsection \<open>C9: no fragments\<close>

text \<open>
  C9: \<^verbatim>\<open>create_vector_store\<close> on the empty list of fragments fails and produces no
  index: fitting the vectorizer raises \<^verbatim>\<open>ValueError\<close>, the vocabulary being empty.
\<close>

theorem C9_empty_corpus_fails: "create_vector_store [] = Inl EmptyVocabulary"
  by (simp add: create_vector_store_def fit_transform_def vocabulary_Nil)

subsection \<open>C2: fragments of equal similarity\<close>

text \<open>
  C2, as stated: of two fragments with the same similarity to the query, the one with the
  lower index comes first; the query \<^verbatim>\<open>"zzz"\<close> with \<open>k = 2\<close> on the index of three
  fragments returns two fragments by ascending index. The code has no step that compares
  indices: it cuts the ascending \<^verbatim>\<open>argsort\<close> to its last \<open>k\<close> indices and reverses
  them. When \<^verbatim>\<open>argsort\<close> leaves the three scores 0 in the order of their indices, the
  fragments 2 and 1 are returned, in this order.
\<close>

theorem C2_ties_lower_index_first_counterexample:
  "create_vector_store [''alpha beta'', ''gamma alpha'', ''beta alpha'']
     = Inr (fit [''alpha beta'', ''gamma alpha'', ''beta alpha''],
            tfidf_rows (fit [''alpha beta'', ''gamma alpha'', ''beta alpha''])
              [''alpha beta'', ''gamma alpha'', ''beta alpha''],
            [''alpha beta'', ''gamma alpha'', ''beta alpha'']) \<and>
   similarities ''zzz'' (fit [''alpha beta'', ''gamma alpha'', ''beta alpha''])
     (tfidf_rows (fit [''alpha beta'', ''gamma alpha'', ''beta alpha''])
        [''alpha beta'', ''gamma alpha'', ''beta alpha''])
     = Inr [0, 0, 0] \<and>
   stable_argsort [0, 0, 0] = [0, 1, 2] \<and>
   top_k_indices stable_argsort [0, 0, 0] 2 = [2, 1] \<and>
   retrieve_relevant_chunks stable_argsort ''zzz''
     (fit [''alpha beta'', ''gamma alpha'', ''beta alpha''])
     (tfidf_rows (fit [''alpha beta'', ''gamma alpha'', ''beta alpha''])
        [''alpha beta'', ''gamma alpha'', ''beta alpha''])
     [''alpha beta'', ''gamma alpha'', ''beta alpha''] 2
     = Inr [''beta alpha'', ''gamma alpha'']"
  by (simp add: scenario_built scenario_similarities scenario_argsort scenario_top
        retrieve_relevant_chunks_def chunks_at_def)

text \<open>
  C2, amended: for every built index of \<open>n\<close> fragments, every query and every \<open>k > 0\<close>,
  the retriever does not fail and returns \<open>min k n\<close> fragments in non-increasing order of
  similarity: those at the last \<open>k\<close> indices of the ascending \<^verbatim>\<open>argsort\<close> of the
  similarities, reversed. It applies no tie-break by index: fragments of equal similarity
  come in the reverse of the order in which \<^verbatim>\<open>argsort\<close> returns them. This holds for
  every \<^verbatim>\<open>argsort\<close> that meets its contract and for every array of \<open>n\<close> scores.
\<close>

theorem C2_no_tie_break_by_index:
  assumes "create_vector_store frags = Inr (vectorizer, vectors, chunks)"
    and "0 < k"
    and "\<And>a. is_argsort a (argsort a)"
  shows "(\<exists>sims. similarities query vectorizer vectors = Inr sims \<and>
                length sims = length chunks \<and>
                retrieve_relevant_chunks argsort query vectorizer vectors chunks k
                  = chunks_at chunks (top_k_indices argsort sims k)) \<and>
         (\<forall>scores. length scores = length chunks \<longrightarrow>
            chunks_at chunks (top_k_indices argsort scores k)
              = Inr (map (\<lambda>i. chunks ! i) (top_k_indices argsort scores k)) \<and>
            top_k_indices argsort scores k
              = rev (drop (length chunks - nat k) (argsort scores)) \<and>
            int (length (top_k_indices argsort scores k)) = min k (int (length chunks)) \<and>
            sorted_wrt (\<lambda>i j. scores ! j \<le> scores ! i) (top_k_indices argsort scores k))"
proof (intro conjI allI impI)
  show "\<exists>sims. similarities query vectorizer vectors = Inr sims \<and>
              length sims = length chunks \<and>
              retrieve_relevant_chunks argsort query vectorizer vectors chunks k
                = chunks_at chunks (top_k_indices argsort sims k)"
    using assms(1) by (rule retrieve_built)
next
  fix scores :: "real list"
  assume l: "length scores = length chunks"
  have a: "is_argsort scores (argsort scores)" by (rule assms(3))
  show "chunks_at chunks (top_k_indices argsort scores k)
          = Inr (map (\<lambda>i. chunks ! i) (top_k_indices argsort scores k))"
    using a l by (rule chunks_at_top_k)
  show t: "top_k_indices argsort scores k
             = rev (drop (length chunks - nat k) (argsort scores))"
    using top_k_indices_pos [of scores argsort k, OF a assms(2)] l by simp
  show "int (length (top_k_indices argsort scores k)) = min k (int (length chunks))"
    using assms(2) l by (simp add: t is_argsort_length [OF a])
  show "sorted_wrt (\<lambda>i j. scores ! j \<le> scores ! i) (top_k_indices argsort scores k)"
    using a by (rule top_k_indices_sorted)
qed

theorem C2_no_tie_break_by_index_witness:
  "(0::int) < 2 \<and>
   is_argsort [0, 0, 0] (stable_argsort [0, 0, 0]) \<and>
   similarities ''zzz'' (fit [''alpha beta'', ''gamma alpha'', ''beta alpha''])
     (tfidf_rows (fit [''alpha beta'', ''gamma alpha'', ''beta alpha''])
        [''alpha beta'', ''gamma alpha'', ''beta alpha''])
     = Inr [0, 0, 0] \<and>
   retrieve_relevant_chunks stable_argsort ''zzz''
     (fit [''alpha beta'', ''gamma alpha'', ''beta alpha''])
     (tfidf_rows (fit [''alpha beta'', ''gamma alpha'', ''beta alpha''])
        [''alpha beta'', ''gamma alpha'', ''beta alpha''])
     [''alpha beta'', ''gamma alpha'', ''beta alpha''] 2
     = Inr [''beta alpha'', ''gamma alpha''] \<and>
   int (length (top_k_indices stable_argsort [0, 0, 0] 2)) = 2 \<and>
   sorted_wrt (\<lambda>i j. [0, 0, 0 :: real] ! j \<le> [0, 0, 0] ! i)
     (top_k_indices stable_argsort [0, 0, 0] 2)"
proof -
  have k: "(0::int) < 2" by simp
  note t = C2_no_tie_break_by_index [OF scenario_built k stable_argsort_is_argsort, of "''zzz''"]
  from t have r: "retrieve_relevant_chunks stable_argsort ''zzz''
     (fit [''alpha beta'', ''gamma alpha'', ''beta alpha''])
     (tfidf_rows (fit [''alpha beta'', ''gamma alpha'', ''beta alpha''])
        [''alpha beta'', ''gamma alpha'', ''beta alpha''])
     [''alpha beta'', ''gamma alpha'', ''beta alpha''] 2
     = chunks_at [''alpha beta'', ''gamma alpha'', ''beta alpha'']
         (top_k_indices stable_argsort [0, 0, 0] 2)"
    by (simp add: scenario_similarities)
  from t have "length [0, 0, 0 :: real] = length [''alpha beta'', ''gamma alpha'', ''beta alpha'']
     \<longrightarrow> chunks_at [''alpha beta'', ''gamma alpha'', ''beta alpha'']
           (top_k_indices stable_argsort [0, 0, 0] 2)
         = Inr (map (\<lambda>i. [''alpha beta'', ''gamma alpha'', ''beta alpha''] ! i)
                  (top_k_indices stable_argsort [0, 0, 0] 2)) \<and>
       int (length (top_k_indices stable_argsort [0, 0, 0] 2))
         = min 2 (int (length [''alpha beta'', ''gamma alpha'', ''beta alpha''])) \<and>
       sorted_wrt (\<lambda>i j. [0, 0, 0 :: real] ! j \<le> [0, 0, 0] ! i)
         (top_k_indices stable_argsort [0, 0, 0] 2)"
    by blast
  with r k stable_argsort_is_argsort [of "[0, 0, 0]"] scenario_similarities show ?thesis
    by (simp add: scenario_top)
qed

subsection \<open>C3: a \<open>k\<close> that is not positive\<close>

text \<open>
  C3, as stated: with \<open>k \<le> 0\<close> the retriever fails. The code has no check of \<open>k\<close>: with
  \<open>k = 0\<close> the slice \<^verbatim>\<open>[-0:]\<close> is the whole array, and on the index of three fragments
  all three are returned.
\<close>

theorem C3_nonpositive_k_returns_counterexample:
  "create_vector_store [''alpha beta'', ''gamma alpha'', ''beta alpha'']
     = Inr (fit [''alpha beta'', ''gamma alpha'', ''beta alpha''],
            tfidf_rows (fit [''alpha beta'', ''gamma alpha'', ''beta alpha''])
              [''alpha beta'', ''gamma alpha'', ''beta alpha''],
            [''alpha beta'', ''gamma alpha'', ''beta alpha'']) \<and>
   retrieve_relevant_chunks stable_argsort ''zzz''
     (fit [''alpha beta'', ''gamma alpha'', ''beta alpha''])
     (tfidf_rows (fit [''alpha beta'', ''gamma alpha'', ''beta alpha''])
        [''alpha beta'', ''gamma alpha'', ''beta alpha''])
     [''alpha beta'', ''gamma alpha'', ''beta alpha''] 0
     = Inr [''beta alpha'', ''gamma alpha'', ''alpha beta'']"
  by (simp add: scenario_built scenario_similarities scenario_top
        retrieve_relevant_chunks_def chunks_at_def)

text \<open>
  C3, amended: for every built index of \<open>n\<close> fragments and every query, the retriever with
  \<open>k \<le> 0\<close> does not fail. It drops the first \<open>- k\<close> indices of the ascending
  \<^verbatim>\<open>argsort\<close>, whose fragments are no more similar than any fragment it keeps, and
  returns the other \<open>n - (- k)\<close> fragments (none when \<open>- k\<close> exceeds \<open>n\<close>, all \<open>n\<close> when
  \<open>k = 0\<close>) in non-increasing order of similarity. This holds for every \<^verbatim>\<open>argsort\<close>
  that meets its contract and for every array of \<open>n\<close> scores.
\<close>

theorem C3_nonpositive_k_drops_least_similar:
  assumes "create_vector_store frags = Inr (vectorizer, vectors, chunks)"
    and "k \<le> 0"
    and "\<And>a. is_argsort a (argsort a)"
  shows "(\<exists>sims. similarities query vectorizer vectors = Inr sims \<and>
                length sims = length chunks \<and>
                retrieve_relevant_chunks argsort query vectorizer vectors chunks k
                  = chunks_at chunks (top_k_indices argsort sims k)) \<and>
         (\<forall>scores. length scores = length chunks \<longrightarrow>
            chunks_at chunks (top_k_indices argsort scores k)
              = Inr (map (\<lambda>i. chunks ! i) (top_k_indices argsort scores k)) \<and>
            top_k_indices argsort scores k = rev (drop (nat (- k)) (argsort scores)) \<and>
            length (top_k_indices argsort scores k) = length chunks - nat (- k) \<and>
            sorted_wrt (\<lambda>i j. scores ! j \<le> scores ! i) (top_k_indices argsort scores k) \<and>
            (\<forall>i\<in>set (take (nat (- k)) (argsort scores)).
               \<forall>j\<in>set (top_k_indices argsort scores k). scores ! i \<le> scores ! j))"
proof (intro conjI allI impI)
  show "\<exists>sims. similarities query vectorizer vectors = Inr sims \<and>
              length sims = length chunks \<and>
              retrieve_relevant_chunks argsort query vectorizer vectors chunks k
                = chunks_at chunks (top_k_indices argsort sims k)"
    using assms(1) by (rule retrieve_built)
next
  fix scores :: "real list"
  assume l: "length scores = length chunks"
  have a: "is_argsort scores (argsort scores)" by (rule assms(3))
  show "chunks_at chunks (top_k_indices argsort scores k)
          = Inr (map (\<lambda>i. chunks ! i) (top_k_indices argsort scores k))"
    using a l by (rule chunks_at_top_k)
  show t: "top_k_indices argsort scores k = rev (drop (nat (- k)) (argsort scores))"
    using a assms(2) by (rule top_k_indices_nonpos)
  show "length (top_k_indices argsort scores k) = length chunks - nat (- k)"
    using l by (simp add: t is_argsort_length [OF a])
  show "sorted_wrt (\<lambda>i j. scores ! j \<le> scores ! i) (top_k_indices argsort scores k)"
    using a by (rule top_k_indices_sorted)
  show "\<forall>i\<in>set (take (nat (- k)) (argsort scores)).
          \<forall>j\<in>set (top_k_indices argsort scores k). scores ! i \<le> scores ! j"
    using dropped_below_kept [OF a] by (simp add: t)
qed

theorem C3_nonpositive_k_drops_least_similar_witness:
  "(- 1::int) \<le> 0 \<and>
   is_argsort [0, 0, 0] (stable_argsort [0, 0, 0]) \<and>
   retrieve_relevant_chunks stable_argsort ''zzz''
     (fit [''alpha beta'', ''gamma alpha'', ''beta alpha''])
     (tfidf_rows (fit [''alpha beta'', ''gamma alpha'', ''beta alpha''])
        [''alpha beta'', ''gamma alpha'', ''beta alpha''])
     [''alpha beta'', ''gamma alpha'', ''beta alpha''] (- 1)
     = Inr [''beta alpha'', ''gamma alpha''] \<and>
   length (top_k_indices stable_argsort [0, 0, 0] (- 1))
     = length [''alpha beta'', ''gamma alpha'', ''beta alpha''] - nat (- (- 1))"
proof -
  have k: "(- 1::int) \<le> 0" by simp
  note t = C3_nonpositive_k_drops_least_similar [OF scenario_built k stable_argsort_is_argsort, of "''zzz''"]
  from t have r: "retrieve_relevant_chunks stable_argsort ''zzz''
     (fit [''alpha beta'', ''gamma alpha'', ''beta alpha''])
     (tfidf_rows (fit [''alpha beta'', ''gamma alpha'', ''beta alpha''])
        [''alpha beta'', ''gamma alpha'', ''beta alpha''])
     [''alpha beta'', ''gamma alpha'', ''beta alpha''] (- 1)
     = chunks_at [''alpha beta'', ''gamma alpha'', ''beta alpha'']
         (top_k_indices stable_argsort [0, 0, 0] (- 1))"
    by (simp add: scenario_similarities)
  from t have "length [0, 0, 0 :: real] = length [''alpha beta'', ''gamma alpha'', ''beta alpha'']
     \<longrightarrow> chunks_at [''alpha beta'', ''gamma alpha'', ''beta alpha'']
           (top_k_indices stable_argsort [0, 0, 0] (- 1))
         = Inr (map (\<lambda>i. [''alpha beta'', ''gamma alpha'', ''beta alpha''] ! i)
                  (top_k_indices stable_argsort [0, 0, 0] (- 1))) \<and>
       length (top_k_indices stable_argsort [0, 0, 0] (- 1))
         = length [''alpha beta'', ''gamma alpha'', ''beta alpha''] - nat (- (- 1))"
    by blast
  with r k stable_argsort_is_argsort [of "[0, 0, 0]"] show ?thesis
    by (simp add: scenario_top)
qed

subsection \<open>C7: a query without a known term\<close>



subsection \<open>C8: a \<open>k\<close> beyond the number of fragments\<close>

text \<open>
  C8: for every built index of \<open>n\<close> fragments, every query and every \<open>k > n\<close>, the
  retriever does not fail and returns all \<open>n\<close> fragments, each index once, in
  non-increasing order of similarity. This holds for every \<^verbatim>\<open>argsort\<close> that meets its
  contract and for every array of \<open>n\<close> scores.
\<close>

theorem C8_k_beyond_corpus_returns_all:
  assumes "create_vector_store frags = Inr (vectorizer, vectors, chunks)"
    and "int (length chunks) < k"
    and "\<And>a. is_argsort a (argsort a)"
  shows "(\<exists>sims. similarities query vectorizer vectors = Inr sims \<and>
                length sims = length chunks \<and>
                retrieve_relevant_chunks argsort query vectorizer vectors chunks k
                  = chunks_at chunks (top_k_indices argsort sims k)) \<and>
         (\<forall>scores. length scores = length chunks \<longrightarrow>
            chunks_at chunks (top_k_indices argsort scores k)
              = Inr (map (\<lambda>i. chunks ! i) (top_k_indices argsort scores k)) \<and>
            mset (top_k_indices argsort scores k) = mset [0..<length chunks] \<and>
            mset (map (\<lambda>i. chunks ! i) (top_k_indices argsort scores k)) = mset chunks \<and>
            sorted_wrt (\<lambda>i j. scores ! j \<le> scores ! i) (top_k_indices argsort scores k))"
proof (intro conjI allI impI)
  show "\<exists>sims. similarities query vectorizer vectors = Inr sims \<and>
              length sims = length chunks \<and>
              retrieve_relevant_chunks argsort query vectorizer vectors chunks k
                = chunks_at chunks (top_k_indices argsort sims k)"
    using assms(1) by (rule retrieve_built)
next
  fix scores :: "real list"
  assume l: "length scores = length chunks"
  have a: "is_argsort scores (argsort scores)" by (rule assms(3))
  have k: "0 < k" using assms(2) by simp
  show "chunks_at chunks (top_k_indices argsort scores k)
          = Inr (map (\<lambda>i. chunks ! i) (top_k_indices argsort scores k))"
    using a l by (rule chunks_at_top_k)
  have "length scores - nat k = 0" using assms(2) l by simp
  then have t: "top_k_indices argsort scores k = rev (argsort scores)"
    by (simp add: top_k_indices_pos [of scores argsort k, OF a k])
  show m: "mset (top_k_indices argsort scores k) = mset [0..<length chunks]"
    using a l by (simp add: t is_argsort_def)
  have "mset (map (\<lambda>i. chunks ! i) (top_k_indices argsort scores k))
          = image_mset (\<lambda>i. chunks ! i) (mset [0..<length chunks])"
    using m by (metis mset_map)
  also have "\<dots> = mset (map (\<lambda>i. chunks ! i) [0..<length chunks])" by simp
  also have "\<dots> = mset chunks" by (simp add: map_nth)
  finally show "mset (map (\<lambda>i. chunks ! i) (top_k_indices argsort scores k)) = mset chunks" .
  show "sorted_wrt (\<lambda>i j. scores ! j \<le> scores ! i) (top_k_indices argsort scores k)"
    using a by (rule top_k_indices_sorted)
qed

theorem C8_k_beyond_corpus_returns_all_witness:
  "int (length [''alpha beta'', ''gamma alpha'', ''beta alpha'']) < 100 \<and>
   is_argsort [0, 0, 0] (stable_argsort [0, 0, 0]) \<and>
   retrieve_relevant_chunks stable_argsort ''zzz''
     (fit [''alpha beta'', ''gamma alpha'', ''beta alpha''])
     (tfidf_rows (fit [''alpha beta'', ''gamma alpha'', ''beta alpha''])
        [''alpha beta'', ''gamma alpha'', ''beta alpha''])
     [''alpha beta'', ''gamma alpha'', ''beta alpha''] 100
     = Inr [''beta alpha'', ''gamma alpha'', ''alpha beta''] \<and>
   mset (top_k_indices stable_argsort [0, 0, 0] 100)
     = mset [0..<length [''alpha beta'', ''gamma alpha'', ''beta alpha'']] \<and>
   mset (map (\<lambda>i. [''alpha beta'', ''gamma alpha'', ''beta alpha''] ! i)
           (top_k_indices stable_argsort [0, 0, 0] 100))
     = mset [''alpha beta'', ''gamma alpha'', ''beta alpha''] \<and>
   (\<exists>sims. similarities ''alpha'' (fit [''alpha beta'', ''gamma alpha'', ''beta alpha''])
     (tfidf_rows (fit [''alpha beta'', ''gamma alpha'', ''beta alpha''])
        [''alpha beta'', ''gamma alpha'', ''beta alpha'']) = Inr sims \<and>
     retrieve_relevant_chunks stable_argsort ''alpha''
       (fit [''alpha beta'', ''gamma alpha'', ''beta alpha''])
       (tfidf_rows (fit [''alpha beta'', ''gamma alpha'', ''beta alpha''])
          [''alpha beta'', ''gamma alpha'', ''beta alpha''])
       [''alpha beta'', ''gamma alpha'', ''beta alpha''] 100
       = Inr (map (\<lambda>i. [''alpha beta'', ''gamma alpha'', ''beta alpha''] ! i)
                (top_k_indices stable_argsort sims 100)) \<and>
     mset (top_k_indices stable_argsort sims 100)
       = mset [0..<length [''alpha beta'', ''gamma alpha'', ''beta alpha'']] \<and>
     sorted_wrt (\<lambda>i j. sims ! j \<le> sims ! i) (top_k_indices stable_argsort sims 100))"
proof -
  have k: "int (length [''alpha beta'', ''gamma alpha'', ''beta alpha'']) < 100" by simp
  note z = C8_k_beyond_corpus_returns_all [OF scenario_built k stable_argsort_is_argsort, of "''zzz''"]
  from z have r: "retrieve_relevant_chunks stable_argsort ''zzz''
     (fit [''alpha beta'', ''gamma alpha'', ''beta alpha''])
     (tfidf_rows (fit [''alpha beta'', ''gamma alpha'', ''beta alpha''])
        [''alpha beta'', ''gamma alpha'', ''beta alpha''])
     [''alpha beta'', ''gamma alpha'', ''beta alpha''] 100
     = chunks_at [''alpha beta'', ''gamma alpha'', ''beta alpha'']
         (top_k_indices stable_argsort [0, 0, 0] 100)"
    by (simp add: scenario_similarities)
  from z have s: "length [0, 0, 0 :: real] = length [''alpha beta'', ''gamma alpha'', ''beta alpha'']
     \<longrightarrow> chunks_at [''alpha beta'', ''gamma alpha'', ''beta alpha'']
           (top_k_indices stable_argsort [0, 0, 0] 100)
         = Inr (map (\<lambda>i. [''alpha beta'', ''gamma alpha'', ''beta alpha''] ! i)
                  (top_k_indices stable_argsort [0, 0, 0] 100)) \<and>
       mset (top_k_indices stable_argsort [0, 0, 0] 100)
         = mset [0..<length [''alpha beta'', ''gamma alpha'', ''beta alpha'']] \<and>
       mset (map (\<lambda>i. [''alpha beta'', ''gamma alpha'', ''beta alpha''] ! i)
               (top_k_indices stable_argsort [0, 0, 0] 100))
         = mset [''alpha beta'', ''gamma alpha'', ''beta alpha'']"
    by blast
  have p1: "retrieve_relevant_chunks stable_argsort ''zzz''
     (fit [''alpha beta'', ''gamma alpha'', ''beta alpha''])
     (tfidf_rows (fit [''alpha beta'', ''gamma alpha'', ''beta alpha''])
        [''alpha beta'', ''gamma alpha'', ''beta alpha''])
     [''alpha beta'', ''gamma alpha'', ''beta alpha''] 100
     = Inr [''beta alpha'', ''gamma alpha'', ''alpha beta'']"
    using r s by (simp add: scenario_top)
  have p2: "mset (top_k_indices stable_argsort [0, 0, 0] 100)
     = mset [0..<length [''alpha beta'', ''gamma alpha'', ''beta alpha'']]"
    using s by simp
  have p3: "mset (map (\<lambda>i. [''alpha beta'', ''gamma alpha'', ''beta alpha''] ! i)
           (top_k_indices stable_argsort [0, 0, 0] 100))
     = mset [''alpha beta'', ''gamma alpha'', ''beta alpha'']"
    using s by simp
  note a = C8_k_beyond_corpus_returns_all [OF scenario_built k stable_argsort_is_argsort, of "''alpha''"]
  from a obtain sims where sims:
    "similarities ''alpha'' (fit [''alpha beta'', ''gamma alpha'', ''beta alpha''])
       (tfidf_rows (fit [''alpha beta'', ''gamma alpha'', ''beta alpha''])
          [''alpha beta'', ''gamma alpha'', ''beta alpha'']) = Inr sims"
    "length sims = length [''alpha beta'', ''gamma alpha'', ''beta alpha'']"
    "retrieve_relevant_chunks stable_argsort ''alpha''
       (fit [''alpha beta'', ''gamma alpha'', ''beta alpha''])
       (tfidf_rows (fit [''alpha beta'', ''gamma alpha'', ''beta alpha''])
          [''alpha beta'', ''gamma alpha'', ''beta alpha''])
       [''alpha beta'', ''gamma alpha'', ''beta alpha''] 100
       = chunks_at [''alpha beta'', ''gamma alpha'', ''beta alpha'']
           (top_k_indices stable_argsort sims 100)"
    by blast
  from a sims(2) have q:
    "chunks_at [''alpha beta'', ''gamma alpha'', ''beta alpha'']
           (top_k_indices stable_argsort sims 100)
         = Inr (map (\<lambda>i. [''alpha beta'', ''gamma alpha'', ''beta alpha''] ! i)
                  (top_k_indices stable_argsort sims 100))"
    "mset (top_k_indices stable_argsort sims 100)
       = mset [0..<length [''alpha beta'', ''gamma alpha'', ''beta alpha'']]"
    "sorted_wrt (\<lambda>i j. sims ! j \<le> sims ! i) (top_k_indices stable_argsort sims 100)"
    by blast+
  have p4: "\<exists>sims. similarities ''alpha'' (fit [''alpha beta'', ''gamma alpha'', ''beta alpha''])
     (tfidf_rows (fit [''alpha beta'', ''gamma alpha'', ''beta alpha''])
        [''alpha beta'', ''gamma alpha'', ''beta alpha'']) = Inr sims \<and>
     retrieve_relevant_chunks stable_argsort ''alpha''
       (fit [''alpha beta'', ''gamma alpha'', ''beta alpha''])
       (tfidf_rows (fit [''alpha beta'', ''gamma alpha'', ''beta alpha''])
          [''alpha beta'', ''gamma alpha'', ''beta alpha''])
       [''alpha beta'', ''gamma alpha'', ''beta alpha''] 100
       = Inr (map (\<lambda>i. [''alpha beta'', ''gamma alpha'', ''beta alpha''] ! i)
                (top_k_indices stable_argsort sims 100)) \<and>
     mset (top_k_indices stable_argsort sims 100)
       = mset [0..<length [''alpha beta'', ''gamma alpha'', ''beta alpha'']] \<and>
     sorted_wrt (\<lambda>i j. sims ! j \<le> sims ! i) (top_k_indices stable_argsort sims 100)"
    using sims(1,3) q by (intro exI [of _ sims]) simp
  from k stable_argsort_is_argsort [of "[0, 0, 0]"] p1 p2 p3 p4 show ?thesis by blast
qed

end
